theory Spec2Isabelle
  imports Main
begin

section \<open>Replay-buffer reconstruction in \<open>rl_zoo3/debug2.py\<close>\<close>

text \<open>
  The development embeds lines 208--255 of \<open>debug\<close> in \<open>src/rl_zoo3/debug2.py\<close>: the
  enumeration of the recording directory, the allocation of the two buffers, the nested
  loop that replays a pickled recording into both buffers and the two final dumps.
  Lines 22--206 (argument parsing, model loading, environment creation) call external
  libraries; the model starts where they have returned and keeps only the parsed
  command-line arguments, which are all that the caller supplies.
\<close>

subsection \<open>Errors\<close>

datatype error = FileNotFoundError | UnpicklingError | IndexError | NameError

subsection \<open>Data\<close>

text \<open>
  A dictionary with the three keys \<open>"observation"\<close>, \<open>"achieved_goal"\<close> and
  \<open>"desired_goal"\<close>. It is used for one structured observation and, with list-valued
  entries, for the \<open>observations\<close> and \<open>next_observations\<close> attributes of a recording.
\<close>

record 'v dict_obs =
  observation :: 'v
  achieved_goal :: 'v
  desired_goal :: 'v

text \<open>
  The six positional arguments of one \<open>add\<close> call. \<open>'o\<close> is the observation type: a
  \<open>dict_obs\<close> for the goal-conditioned buffer, a bare array for the plain one. Arrays,
  rewards and infos are not computed with, so their types stay parameters.
\<close>

datatype ('o, 'v, 'r, 'i) transition =
  Transition (obs: 'o) (next_obs: 'o) (action: 'v) (reward: 'r) (done_flag: bool) (info: 'i)

text \<open>
  The object \<open>pickle.load\<close> returns: the attributes that the loop reads
  (\<open>loaded_object.pos\<close>, \<open>.observations[...]\<close>, \<open>.next_observations[...]\<close>, \<open>.actions\<close>,
  \<open>.rewards\<close>, \<open>.dones\<close>, \<open>.infos\<close>). \<open>pos\<close> is a Python integer.
\<close>

record ('v, 'r, 'i) recording =
  pos :: int
  observations :: "'v list dict_obs"
  next_observations :: "'v list dict_obs"
  actions :: "'v list"
  rewards :: "'r list"
  dones :: "bool list"
  infos :: "'i list"

subsection \<open>The buffers\<close>

text \<open>
  Modelled from the spec: \<open>HerReplayBuffer\<close> and \<open>ReplayBuffer\<close> are classes of the
  external library \<open>stable_baselines3\<close>; neither their constructor nor \<open>add\<close> is in the
  repository. Section 3 of the specification describes both as a fixed-capacity circular
  store of transitions that tracks the current write position and the total inserted
  count and overwrites the oldest entry once the capacity is exceeded. The storage is
  a map from slot index to the transition held there; a slot never written is \<open>None\<close>.
\<close>

record 't ring_buffer =
  buffer_size :: nat
  write_pos :: nat
  total_inserted :: nat
  storage :: "nat \<rightharpoonup> 't"

definition new_buffer :: "nat \<Rightarrow> 't ring_buffer" where
  "new_buffer n =
     \<lparr>buffer_size = n, write_pos = 0, total_inserted = 0, storage = Map.empty\<rparr>"

definition add :: "'t ring_buffer \<Rightarrow> 't \<Rightarrow> 't ring_buffer" where
  "add b t =
     b\<lparr>storage := (storage b)(write_pos b \<mapsto> t),
       write_pos := (write_pos b + 1) mod buffer_size b,
       total_inserted := total_inserted b + 1\<rparr>"

text \<open>The number of transitions a buffer holds, and what it holds, oldest first.\<close>

definition held :: "'t ring_buffer \<Rightarrow> nat" where
  "held b = min (total_inserted b) (buffer_size b)"

definition contents :: "'t ring_buffer \<Rightarrow> 't option list" where
  "contents b =
     (if total_inserted b \<le> buffer_size b
      then map (storage b) [0..<total_inserted b]
      else map (\<lambda>k. storage b ((write_pos b + k) mod buffer_size b)) [0..<buffer_size b])"

type_synonym ('v, 'r, 'i) her_buffer = "('v dict_obs, 'v, 'r, 'i) transition ring_buffer"
type_synonym ('v, 'r, 'i) plain_buffer = "('v, 'v, 'r, 'i) transition ring_buffer"

record ('v, 'r, 'i) buffers =
  replay_buffer :: "('v, 'r, 'i) her_buffer"
  plain_replay_buffer :: "('v, 'r, 'i) plain_buffer"

subsection \<open>Indexing and the arguments of the two \<open>add\<close> calls\<close>

text \<open>
  \<open>xs[i]\<close> for an index produced by \<open>range\<close>, hence never negative: the element, or
  \<open>IndexError\<close> at and beyond the length.
\<close>

definition index :: "'a list \<Rightarrow> nat \<Rightarrow> error + 'a" where
  "index xs i = (if i < length xs then Inr (xs ! i) else Inl IndexError)"

definition bind :: "error + 'a \<Rightarrow> ('a \<Rightarrow> error + 'b) \<Rightarrow> error + 'b" where
  "bind m f = (case m of Inl e \<Rightarrow> Inl e | Inr x \<Rightarrow> f x)"

text \<open>
  Lines 226--239: the arguments of \<open>replay_buffer.add\<close>, evaluated left to right; the
  first failing subscript raises.
\<close>

definition her_args ::
  "('v, 'r, 'i) recording \<Rightarrow> nat \<Rightarrow> error + ('v dict_obs, 'v, 'r, 'i) transition" where
  "her_args loaded_object i =
     bind (index (observation (observations loaded_object)) i) (\<lambda>oo.
     bind (index (achieved_goal (observations loaded_object)) i) (\<lambda>oa.
     bind (index (desired_goal (observations loaded_object)) i) (\<lambda>od.
     bind (index (observation (next_observations loaded_object)) i) (\<lambda>no.
     bind (index (achieved_goal (next_observations loaded_object)) i) (\<lambda>na.
     bind (index (desired_goal (next_observations loaded_object)) i) (\<lambda>nd.
     bind (index (actions loaded_object) i) (\<lambda>a.
     bind (index (rewards loaded_object) i) (\<lambda>r.
     bind (index (dones loaded_object) i) (\<lambda>d.
     bind (index (infos loaded_object) i) (\<lambda>inf.
       Inr (Transition
              \<lparr>observation = oo, achieved_goal = oa, desired_goal = od\<rparr>
              \<lparr>observation = no, achieved_goal = na, desired_goal = nd\<rparr>
              a r d inf)))))))))))"

text \<open>Lines 242--247: the arguments of \<open>plain_replay_buffer.add\<close>.\<close>

definition plain_args ::
  "('v, 'r, 'i) recording \<Rightarrow> nat \<Rightarrow> error + ('v, 'v, 'r, 'i) transition" where
  "plain_args loaded_object i =
     bind (index (observation (observations loaded_object)) i) (\<lambda>oo.
     bind (index (observation (next_observations loaded_object)) i) (\<lambda>no.
     bind (index (actions loaded_object) i) (\<lambda>a.
     bind (index (rewards loaded_object) i) (\<lambda>r.
     bind (index (dones loaded_object) i) (\<lambda>d.
     bind (index (infos loaded_object) i) (\<lambda>inf.
       Inr (Transition oo no a r d inf)))))))"

subsection \<open>The insertion loop\<close>

text \<open>
  Lines 225--248, one pass of the body of \<open>for i in range(loaded_object.pos)\<close>. The
  result is the raised error, if any, and the buffers as they are when the body ends
  or raises.
\<close>

definition paired_insert ::
  "('v, 'r, 'i) recording \<Rightarrow> nat \<Rightarrow> ('v, 'r, 'i) buffers \<Rightarrow> error option \<times> ('v, 'r, 'i) buffers" where
  "paired_insert loaded_object i bufs =
     (case her_args loaded_object i of
        Inl e \<Rightarrow> (Some e, bufs)
      | Inr t \<Rightarrow>
          let bufs1 = bufs\<lparr>replay_buffer := add (replay_buffer bufs) t\<rparr> in
          (case plain_args loaded_object i of
             Inl e \<Rightarrow> (Some e, bufs1)
           | Inr u \<Rightarrow>
               (None, bufs1\<lparr>plain_replay_buffer := add (plain_replay_buffer bufs1) u\<rparr>)))"

text \<open>
  \<open>insert_loop loaded_object i n bufs\<close> runs the body for the \<open>n\<close> indices from \<open>i\<close> on;
  line 224 is \<open>insert_loop loaded_object 0 (nat (pos loaded_object))\<close>, where \<open>nat\<close>
  makes \<open>range\<close> of a negative number empty.
\<close>

fun insert_loop ::
  "('v, 'r, 'i) recording \<Rightarrow> nat \<Rightarrow> nat \<Rightarrow> ('v, 'r, 'i) buffers \<Rightarrow> error option \<times> ('v, 'r, 'i) buffers" where
  "insert_loop loaded_object i 0 bufs = (None, bufs)"
| "insert_loop loaded_object i (Suc n) bufs =
     (case paired_insert loaded_object i bufs of
        (Some e, bufs') \<Rightarrow> (Some e, bufs')
      | (None, bufs') \<Rightarrow> insert_loop loaded_object (Suc i) n bufs')"

subsection \<open>The file system\<close>

text \<open>
  What the run reads from the outside world: \<open>os.listdir\<close> of a path (\<open>None\<close> when the
  directory does not exist) and what a path holds (\<open>None\<close> when absent, otherwise bytes
  that unpickle to a recording or do not unpickle).
\<close>

datatype ('v, 'r, 'i) file_content = Pickled "('v, 'r, 'i) recording" | Garbage

record ('v, 'r, 'i) filesystem =
  listdir :: "string \<rightharpoonup> string list"
  files :: "string \<rightharpoonup> ('v, 'r, 'i) file_content"

text \<open>\<open>open(path, 'rb')\<close> followed by \<open>pickle.load\<close>.\<close>

definition load :: "('v, 'r, 'i) filesystem \<Rightarrow> string \<Rightarrow> error + ('v, 'r, 'i) recording" where
  "load fs path =
     (case files fs path of
        None \<Rightarrow> Inl FileNotFoundError
      | Some Garbage \<Rightarrow> Inl UnpicklingError
      | Some (Pickled loaded_object) \<Rightarrow> Inr loaded_object)"

text \<open>\<open>str.endswith\<close> and \<open>os.path.join\<close> of two components (POSIX).\<close>

definition endswith :: "string \<Rightarrow> string \<Rightarrow> bool" where
  "endswith s suffix =
     (length suffix \<le> length s \<and> drop (length s - length suffix) s = suffix)"

definition path_join :: "string \<Rightarrow> string \<Rightarrow> string" where
  "path_join a b =
     (if b \<noteq> [] \<and> hd b = CHR ''/'' then b
      else if a = [] \<or> last a = CHR ''/'' then a @ b
      else a @ ''/'' @ b)"

subsection \<open>The constants of the run\<close>

definition directory_path :: string where
  "directory_path = ''/home/deniz.seven/Desktop/Thesis_Documents/agent_recordings/Stage3_v4''"

definition save_path_her :: string where
  "save_path_her =
     ''/home/deniz.seven/Desktop/Thesis_Documents/agent_recordings/Stage3_v4/replay_buffer_40.pkl''"

definition save_path_plain :: string where
  "save_path_plain =
     ''/home/deniz.seven/Desktop/Thesis_Documents/agent_recordings/Stage3_v4/plain_replay_buffer_40.pkl''"

subsection \<open>Enumeration of the recordings\<close>

text \<open>
  Lines 211--214. The state of the loop is the variable \<open>file_path\<close>, unbound (\<open>None\<close>)
  until the first match, and the list \<open>file_paths\<close>.
\<close>

fun collect :: "string list \<Rightarrow> string option \<times> string list \<Rightarrow> string option \<times> string list" where
  "collect [] st = st"
| "collect (filename # rest) (file_path, file_paths) =
     (if endswith filename ''.pkl''
      then (let file_path' = path_join directory_path filename
            in collect rest (Some file_path', file_paths @ [file_path']))
      else collect rest (file_path, file_paths))"

subsection \<open>The loop over the recordings\<close>

record ('v, 'r, 'i) state =
  counter :: nat
  printed :: "nat list"
  opened :: "string list"
  bufs :: "('v, 'r, 'i) buffers"

text \<open>
  Lines 219--248. The loop variable \<open>file\<close> is not read: line 222 opens \<open>file_path\<close>,
  the variable the enumeration left behind, and rebinds \<open>file\<close> to the handle.
  \<open>opened\<close> lists the paths passed to \<open>open\<close>, \<open>printed\<close> what \<open>print\<close> wrote.
\<close>

fun file_loop ::
  "('v, 'r, 'i) filesystem \<Rightarrow> string option \<Rightarrow> string list \<Rightarrow> ('v, 'r, 'i) state
     \<Rightarrow> error option \<times> ('v, 'r, 'i) state" where
  "file_loop fs file_path [] st = (None, st)"
| "file_loop fs file_path (file # rest) st =
     (let st1 = st\<lparr>counter := counter st + 1\<rparr>;
          st2 = st1\<lparr>printed := printed st1 @ [counter st1]\<rparr>
      in case file_path of
           None \<Rightarrow> (Some NameError, st2)
         | Some path \<Rightarrow>
             let st3 = st2\<lparr>opened := opened st2 @ [path]\<rparr> in
             (case load fs path of
                Inl e \<Rightarrow> (Some e, st3)
              | Inr loaded_object \<Rightarrow>
                  (case insert_loop loaded_object 0 (nat (pos loaded_object)) (bufs st3) of
                     (Some e, b) \<Rightarrow> (Some e, st3\<lparr>bufs := b\<rparr>)
                   | (None, b) \<Rightarrow> file_loop fs file_path rest (st3\<lparr>bufs := b\<rparr>))))"

subsection \<open>The run\<close>

text \<open>
  The command-line options that \<open>argparse\<close> hands to \<open>debug\<close> (lines 23--78): what the
  caller of the program supplies.
\<close>

record args =
  env :: string
  folder :: string
  save_folder :: string
  algo :: string
  n_timesteps :: int
  num_threads :: int
  n_envs :: int
  exp_id :: int
  verbose :: int
  seed :: int
  reward_log :: string

datatype ('v, 'r, 'i) artifact =
  HerDump "('v, 'r, 'i) her_buffer" | PlainDump "('v, 'r, 'i) plain_buffer"

text \<open>
  The outcome of a run: the uncaught exception, if any, and the files written, in
  order, each with the object dumped into it.
\<close>

record ('v, 'r, 'i) outcome =
  raised :: "error option"
  written :: "(string \<times> ('v, 'r, 'i) artifact) list"

text \<open>Lines 216--218: both buffers are built with the literal 36090.\<close>

definition init_state :: "('v, 'r, 'i) state" where
  "init_state =
     \<lparr>counter = 0, printed = [], opened = [],
      bufs = \<lparr>replay_buffer = new_buffer 36090, plain_replay_buffer = new_buffer 36090\<rparr>\<rparr>"

text \<open>
  Lines 208--248: enumeration, allocation and replay. \<open>None\<close> for the listing is the
  failure of \<open>os.listdir\<close>, before any buffer exists.
\<close>

definition reconstruct ::
  "('v, 'r, 'i) filesystem \<Rightarrow> error + (error option \<times> ('v, 'r, 'i) state)" where
  "reconstruct fs =
     (case listdir fs directory_path of
        None \<Rightarrow> Inl FileNotFoundError
      | Some names \<Rightarrow>
          (case collect names (None, []) of
             (file_path, file_paths) \<Rightarrow> Inr (file_loop fs file_path file_paths init_state)))"

text \<open>
  Lines 208--255. Nothing catches an exception, so the dumps of lines 249--255 are
  reached only when the replay has raised nothing. The two \<open>open(..., 'wb')\<close> calls are
  taken to succeed: they create files in the directory that was just listed.
\<close>

definition debug :: "args \<Rightarrow> ('v, 'r, 'i) filesystem \<Rightarrow> ('v, 'r, 'i) outcome" where
  "debug a fs =
     (case reconstruct fs of
        Inl e \<Rightarrow> \<lparr>raised = Some e, written = []\<rparr>
      | Inr (Some e, st) \<Rightarrow> \<lparr>raised = Some e, written = []\<rparr>
      | Inr (None, st) \<Rightarrow>
          \<lparr>raised = None,
           written = [(save_path_her, HerDump (replay_buffer (bufs st))),
                      (save_path_plain, PlainDump (plain_replay_buffer (bufs st)))]\<rparr>)"

section \<open>Notions used to state the properties\<close>

subsection \<open>What a recording holds\<close>

text \<open>
  \<open>in_range\<close> says that every subscript of lines 226--247 succeeds at \<open>i\<close>;
  \<open>seq_len\<close> is the length of the shortest of the ten recorded sequences, so a declared
  \<open>pos\<close> beyond it exceeds what was recorded. \<open>her_at\<close> and \<open>plain_at\<close> are the
  transitions that the two \<open>add\<close> calls receive at an index in range.
\<close>

definition in_range :: "('v, 'r, 'i) recording \<Rightarrow> nat \<Rightarrow> bool" where
  "in_range loaded_object i =
     (i < length (observation (observations loaded_object)) \<and>
      i < length (achieved_goal (observations loaded_object)) \<and>
      i < length (desired_goal (observations loaded_object)) \<and>
      i < length (observation (next_observations loaded_object)) \<and>
      i < length (achieved_goal (next_observations loaded_object)) \<and>
      i < length (desired_goal (next_observations loaded_object)) \<and>
      i < length (actions loaded_object) \<and>
      i < length (rewards loaded_object) \<and>
      i < length (dones loaded_object) \<and>
      i < length (infos loaded_object))"

definition seq_len :: "('v, 'r, 'i) recording \<Rightarrow> nat" where
  "seq_len loaded_object =
     min (length (observation (observations loaded_object)))
    (min (length (achieved_goal (observations loaded_object)))
    (min (length (desired_goal (observations loaded_object)))
    (min (length (observation (next_observations loaded_object)))
    (min (length (achieved_goal (next_observations loaded_object)))
    (min (length (desired_goal (next_observations loaded_object)))
    (min (length (actions loaded_object))
    (min (length (rewards loaded_object))
    (min (length (dones loaded_object))
         (length (infos loaded_object))))))))))"

definition her_at :: "('v, 'r, 'i) recording \<Rightarrow> nat \<Rightarrow> ('v dict_obs, 'v, 'r, 'i) transition" where
  "her_at loaded_object i =
     Transition
       \<lparr>observation = observation (observations loaded_object) ! i,
        achieved_goal = achieved_goal (observations loaded_object) ! i,
        desired_goal = desired_goal (observations loaded_object) ! i\<rparr>
       \<lparr>observation = observation (next_observations loaded_object) ! i,
        achieved_goal = achieved_goal (next_observations loaded_object) ! i,
        desired_goal = desired_goal (next_observations loaded_object) ! i\<rparr>
       (actions loaded_object ! i) (rewards loaded_object ! i)
       (dones loaded_object ! i) (infos loaded_object ! i)"

definition plain_at :: "('v, 'r, 'i) recording \<Rightarrow> nat \<Rightarrow> ('v, 'v, 'r, 'i) transition" where
  "plain_at loaded_object i =
     Transition
       (observation (observations loaded_object) ! i)
       (observation (next_observations loaded_object) ! i)
       (actions loaded_object ! i) (rewards loaded_object ! i)
       (dones loaded_object ! i) (infos loaded_object ! i)"

text \<open>
  The projection of a structured transition to the plain one: the \<open>"observation"\<close>
  component of both observations, everything else unchanged.
\<close>

definition flatten :: "('v dict_obs, 'v, 'r, 'i) transition \<Rightarrow> ('v, 'v, 'r, 'i) transition" where
  "flatten t =
     Transition (observation (obs t)) (observation (next_obs t))
       (action t) (reward t) (done_flag t) (info t)"

text \<open>
The transitions of a recording up to its declared count, in recorded order.
\<close>

definition her_transitions ::
  "('v, 'r, 'i) recording \<Rightarrow> ('v dict_obs, 'v, 'r, 'i) transition list" where
  "her_transitions loaded_object = map (her_at loaded_object) [0..<nat (pos loaded_object)]"

definition plain_transitions ::
  "('v, 'r, 'i) recording \<Rightarrow> ('v, 'v, 'r, 'i) transition list" where
  "plain_transitions loaded_object = map (plain_at loaded_object) [0..<nat (pos loaded_object)]"

subsection \<open>Steps of the run\<close>

text \<open>
  One insertion into both buffers; the recordings that the enumeration selects; the
  bookkeeping of one pass of the loop over the recordings before the file is read.
\<close>

definition paired_add ::
  "('v, 'r, 'i) buffers \<Rightarrow> ('v dict_obs, 'v, 'r, 'i) transition \<Rightarrow> ('v, 'r, 'i) buffers" where
  "paired_add b t =
     \<lparr>replay_buffer = add (replay_buffer b) t,
      plain_replay_buffer = add (plain_replay_buffer b) (flatten t)\<rparr>"

definition pkl_paths :: "string list \<Rightarrow> string list" where
  "pkl_paths names = map (path_join directory_path) (filter (\<lambda>f. endswith f ''.pkl'') names)"

definition enter :: "('v, 'r, 'i) state \<Rightarrow> string \<Rightarrow> ('v, 'r, 'i) state" where
  "enter st path =
     st\<lparr>counter := counter st + 1, printed := printed st @ [counter st + 1],
        opened := opened st @ [path]\<rparr>"

text \<open>
  The buffers after each paired insertion of a run, in order: \<open>insert_states\<close> for one
  recording, \<open>file_states\<close> for the loop over the recordings, \<open>reconstruct_states\<close>
  for the whole run, starting with the freshly allocated buffers.
\<close>

fun insert_states ::
  "('v, 'r, 'i) recording \<Rightarrow> nat \<Rightarrow> nat \<Rightarrow> ('v, 'r, 'i) buffers \<Rightarrow> ('v, 'r, 'i) buffers list" where
  "insert_states loaded_object i 0 b = []"
| "insert_states loaded_object i (Suc n) b =
     (case paired_insert loaded_object i b of
        (Some e, b') \<Rightarrow> []
      | (None, b') \<Rightarrow> b' # insert_states loaded_object (Suc i) n b')"

fun file_states ::
  "('v, 'r, 'i) filesystem \<Rightarrow> string option \<Rightarrow> string list \<Rightarrow> ('v, 'r, 'i) buffers
     \<Rightarrow> ('v, 'r, 'i) buffers list" where
  "file_states fs file_path [] b = []"
| "file_states fs file_path (file # rest) b =
     (case file_path of
        None \<Rightarrow> []
      | Some path \<Rightarrow>
          (case load fs path of
             Inl e \<Rightarrow> []
           | Inr loaded_object \<Rightarrow>
               insert_states loaded_object 0 (nat (pos loaded_object)) b @
               (case insert_loop loaded_object 0 (nat (pos loaded_object)) b of
                  (Some e, b') \<Rightarrow> []
                | (None, b') \<Rightarrow> file_states fs file_path rest b')))"

definition reconstruct_states :: "('v, 'r, 'i) filesystem \<Rightarrow> ('v, 'r, 'i) buffers list" where
  "reconstruct_states fs =
     (case listdir fs directory_path of
        None \<Rightarrow> []
      | Some names \<Rightarrow>
          (case collect names (None, []) of
             (file_path, file_paths) \<Rightarrow>
               bufs init_state # file_states fs file_path file_paths (bufs init_state)))"

text \<open>
Both buffers have received the same number of \<open>add\<close> calls.
\<close>

definition balanced :: "('v, 'r, 'i) buffers \<Rightarrow> bool" where
  "balanced b = (total_inserted (replay_buffer b) = total_inserted (plain_replay_buffer b))"

text \<open>
What a dumped buffer reports.
\<close>

definition inserted :: "('v, 'r, 'i) artifact \<Rightarrow> nat" where
  "inserted x = (case x of HerDump b \<Rightarrow> total_inserted b | PlainDump b \<Rightarrow> total_inserted b)"

definition capacity_of :: "('v, 'r, 'i) artifact \<Rightarrow> nat" where
  "capacity_of x = (case x of HerDump b \<Rightarrow> buffer_size b | PlainDump b \<Rightarrow> buffer_size b)"

subsection \<open>Concrete inputs\<close>

text \<open>
  The defaults of the argument parser, and a second command line that differs from it
  in every option.
\<close>

definition default_args :: args where
  "default_args =
     \<lparr>env = ''CartPole-v1'', folder = ''rl-trained-agents'',
      save_folder = ''/home/deniz.seven/Desktop/Thesis_Documents/replay_buffer'',
      algo = ''ppo'', n_timesteps = 1000, num_threads = - 1, n_envs = 1, exp_id = 0,
      verbose = 1, seed = 0, reward_log = ''''\<rparr>"

definition other_args :: args where
  "other_args =
     \<lparr>env = ''StageThreeTekkenEnv-v4'', folder = ''logs'', save_folder = ''out'',
      algo = ''sac'', n_timesteps = 5, num_threads = 2, n_envs = 3, exp_id = 4,
      verbose = 0, seed = 7, reward_log = ''rewards''\<rparr>"

text \<open>
  A recording over natural numbers with the declared count \<open>p\<close> and sequences as long
  as \<open>xs\<close>, and a file system whose recording directory holds the given entries, in
  enumeration order.
\<close>

definition recorded :: "int \<Rightarrow> nat list \<Rightarrow> (nat, nat, nat) recording" where
  "recorded p xs =
     \<lparr>pos = p,
      observations =
        \<lparr>observation = xs, achieved_goal = map (\<lambda>x. x + 100) xs,
         desired_goal = map (\<lambda>x. x + 200) xs\<rparr>,
      next_observations =
        \<lparr>observation = map (\<lambda>x. x + 1) xs, achieved_goal = map (\<lambda>x. x + 101) xs,
         desired_goal = map (\<lambda>x. x + 200) xs\<rparr>,
      actions = map (\<lambda>x. x + 300) xs,
      rewards = map (\<lambda>x. x + 400) xs,
      dones = map (\<lambda>x. False) xs,
      infos = map (\<lambda>x. x + 500) xs\<rparr>"

definition dir_with ::
  "(string \<times> (nat, nat, nat) file_content) list \<Rightarrow> (nat, nat, nat) filesystem" where
  "dir_with entries =
     \<lparr>listdir = [directory_path \<mapsto> map fst entries],
      files = map_of (map (\<lambda>(name, c). (path_join directory_path name, c)) entries)\<rparr>"

definition fs_two :: "(nat, nat, nat) filesystem" where
  "fs_two = dir_with [(''a.pkl'', Pickled (recorded 1 [5])),
                      (''b.pkl'', Pickled (recorded 2 [10, 20]))]"

definition fs_two_altered :: "(nat, nat, nat) filesystem" where
  "fs_two_altered = dir_with [(''a.pkl'', Garbage),
                              (''b.pkl'', Pickled (recorded 2 [10, 20]))]"

definition fs_two_elsewhere :: "(nat, nat, nat) filesystem" where
  "fs_two_elsewhere = fs_two\<lparr>listdir := (listdir fs_two)(''/tmp'' \<mapsto> [''x.pkl''])\<rparr>"

definition fs_short_first :: "(nat, nat, nat) filesystem" where
  "fs_short_first = dir_with [(''a.pkl'', Pickled (recorded 10 [5, 6, 7])),
                              (''b.pkl'', Pickled (recorded 1 [10]))]"

definition fs_three :: "(nat, nat, nat) filesystem" where
  "fs_three = dir_with [(''r.pkl'', Pickled (recorded 3 [5, 6, 7]))]"

definition fs_notes :: "(nat, nat, nat) filesystem" where
  "fs_notes = dir_with [(''notes.txt'', Garbage)]"

definition fs_missing :: "(nat, nat, nat) filesystem" where
  "fs_missing = \<lparr>listdir = Map.empty, files = Map.empty\<rparr>"

section \<open>The insertion loop\<close>

subsection \<open>Arguments of the two calls\<close>

lemma bind_index_last:
  "bind (index xs i) (\<lambda>x. Inr (f x)) = (if i < length xs then Inr (f (xs ! i)) else Inl IndexError)"
  by (simp add: bind_def index_def)

lemma bind_index_step:
  "bind (index xs i) (\<lambda>x. if P then Inr (f x) else Inl IndexError) =
     (if i < length xs \<and> P then Inr (f (xs ! i)) else Inl IndexError)"
  by (simp add: bind_def index_def)

lemma her_args_eq:
  "her_args ob i = (if in_range ob i then Inr (her_at ob i) else Inl IndexError)"
  unfolding her_args_def in_range_def her_at_def
  by (simp only: bind_index_last bind_index_step)

lemma plain_args_eq:
  "plain_args ob i =
     (if i < length (observation (observations ob)) \<and>
         i < length (observation (next_observations ob)) \<and>
         i < length (actions ob) \<and> i < length (rewards ob) \<and>
         i < length (dones ob) \<and> i < length (infos ob)
      then Inr (flatten (her_at ob i)) else Inl IndexError)"
  unfolding plain_args_def her_at_def flatten_def
  by (simp only: bind_index_last bind_index_step transition.sel dict_obs.simps)

text \<open>
  Every subscript of the second call has already succeeded in the first, so the second
  call cannot raise, and its arguments are the projection of the first call's.
\<close>

lemma plain_args_after_her:
  "her_args ob i = Inr t \<Longrightarrow> plain_args ob i = Inr (flatten t)"
proof -
  assume h: "her_args ob i = Inr t"
  have r: "in_range ob i"
  proof (rule ccontr)
    assume "\<not> in_range ob i"
    with h show False by (simp add: her_args_eq)
  qed
  with h have t: "t = her_at ob i" by (simp add: her_args_eq)
  from r show ?thesis unfolding t plain_args_eq in_range_def by simp
qed

lemma paired_insert_eq:
  "paired_insert ob i b =
     (if in_range ob i then (None, paired_add b (her_at ob i)) else (Some IndexError, b))"
proof (cases "in_range ob i")
  case True
  then have h: "her_args ob i = Inr (her_at ob i)" by (simp add: her_args_eq)
  show ?thesis using True by (simp add: paired_insert_def h plain_args_after_her [OF h] paired_add_def Let_def)
next
  case False
  then show ?thesis by (simp add: paired_insert_def her_args_eq)
qed

lemma in_range_seq_len: "in_range ob i = (i < seq_len ob)"
  by (simp only: in_range_def seq_len_def min_less_iff_conj)

subsection \<open>The loop over the indices\<close>

lemma insert_loop_eq:
  "i \<le> seq_len ob \<Longrightarrow>
   insert_loop ob i n b =
     (if i + n \<le> seq_len ob then None else Some IndexError,
      foldl paired_add b (map (her_at ob) [i..<min (i + n) (seq_len ob)]))"
proof (induction n arbitrary: i b)
  case 0
  then show ?case by simp
next
  case (Suc n)
  show ?case
  proof (cases "i < seq_len ob")
    case True
    then have u: "[i..<min (i + Suc n) (seq_len ob)] = i # [Suc i..<min (Suc i + n) (seq_len ob)]"
      by (simp add: upt_conv_Cons)
    from True have "Suc i \<le> seq_len ob" by simp
    from Suc.IH [OF this] show ?thesis unfolding u using True
      by (simp add: paired_insert_eq in_range_seq_len)
  next
    case False
    with Suc.prems have "i = seq_len ob" by simp
    then show ?thesis
      by (simp add: paired_insert_eq in_range_seq_len)
  qed
qed

lemma insert_loop_valid:
  "nat (pos ob) \<le> seq_len ob \<Longrightarrow>
   insert_loop ob 0 (nat (pos ob)) b = (None, foldl paired_add b (her_transitions ob))"
  by (simp add: insert_loop_eq her_transitions_def min_def)

section \<open>The loop over the recordings\<close>

lemma enter_simps:
  "counter (enter st p) = counter st + 1"
  "printed (enter st p) = printed st @ [counter st + 1]"
  "opened (enter st p) = opened st @ [p]"
  "bufs (enter st p) = bufs st"
  by (simp_all add: enter_def)

lemma file_loop_Cons:
  "file_loop fs (Some p) (f # rest) st =
     (case load fs p of
        Inl e \<Rightarrow> (Some e, enter st p)
      | Inr ob \<Rightarrow>
          if nat (pos ob) \<le> seq_len ob
          then file_loop fs (Some p) rest
                 ((enter st p)\<lparr>bufs := foldl paired_add (bufs st) (her_transitions ob)\<rparr>)
          else (Some IndexError,
                (enter st p)\<lparr>bufs := foldl paired_add (bufs st) (map (her_at ob) [0..<seq_len ob])\<rparr>))"
proof (cases "load fs p")
  case (Inl e)
  then show ?thesis by (simp add: enter_def)
next
  case (Inr ob)
  have il: "insert_loop ob 0 (nat (pos ob)) (bufs st) =
     (if nat (pos ob) \<le> seq_len ob then None else Some IndexError,
      foldl paired_add (bufs st) (map (her_at ob) [0..<min (nat (pos ob)) (seq_len ob)]))"
    by (simp add: insert_loop_eq)
  show ?thesis
  proof (cases "nat (pos ob) \<le> seq_len ob")
    case True
    then show ?thesis using Inr il by (simp add: enter_def her_transitions_def min_def)
  next
    case False
    then show ?thesis using Inr il by (simp add: enter_def min_def)
  qed
qed

lemma file_loop_unbound_Cons:
  "file_loop fs None (f # rest) st =
     (Some NameError, st\<lparr>counter := counter st + 1, printed := printed st @ [counter st + 1]\<rparr>)"
  by simp

declare file_loop.simps(2) [simp del]

lemma collect_eq:
  "collect names (fp, fps) =
     (if pkl_paths names = [] then fp else Some (last (pkl_paths names)), fps @ pkl_paths names)"
proof (induction names arbitrary: fp fps)
  case Nil
  then show ?case by (simp add: pkl_paths_def)
next
  case (Cons f rest)
  show ?case
  proof (cases "endswith f ''.pkl''")
    case True
    then have p: "pkl_paths (f # rest) = path_join directory_path f # pkl_paths rest"
      by (simp add: pkl_paths_def)
    show ?thesis using True by (simp add: Cons.IH p Let_def)
  next
    case False
    then have p: "pkl_paths (f # rest) = pkl_paths rest"
      by (simp add: pkl_paths_def)
    show ?thesis using False by (simp add: Cons.IH p)
  qed
qed

lemma file_loop_load_cong:
  "load fs p = load fs' p \<Longrightarrow> file_loop fs (Some p) paths st = file_loop fs' (Some p) paths st"
proof (induction paths arbitrary: st)
  case Nil
  then show ?case by simp
next
  case (Cons f rest)
  show ?case unfolding file_loop_Cons Cons.prems
    by (simp add: Cons.IH [OF Cons.prems] split: sum.split)
qed

lemma file_loop_opened:
  "file_loop fs (Some p) paths st = (e, st') \<Longrightarrow>
   opened st' = opened st @ replicate (counter st' - counter st) p \<and>
   counter st \<le> counter st' \<and> counter st' \<le> counter st + length paths \<and>
   (e = None \<longrightarrow> counter st' = counter st + length paths)"
proof (induction paths arbitrary: st)
  case Nil
  then show ?case by simp
next
  case (Cons f rest)
  show ?case
  proof (cases "load fs p")
    case (Inl err)
    with Cons.prems have "st' = enter st p" "e = Some err" by (simp_all add: file_loop_Cons)
    then show ?thesis by (simp add: enter_simps)
  next
    case (Inr ob)
    show ?thesis
    proof (cases "nat (pos ob) \<le> seq_len ob")
      case False
      with Cons.prems Inr have "e = Some IndexError"
        "st' = (enter st p)\<lparr>bufs := foldl paired_add (bufs st) (map (her_at ob) [0..<seq_len ob])\<rparr>"
        by (simp_all add: file_loop_Cons)
      then show ?thesis by (simp add: enter_simps)
    next
      case True
      let ?st4 = "(enter st p)\<lparr>bufs := foldl paired_add (bufs st) (her_transitions ob)\<rparr>"
      from True Cons.prems Inr have "file_loop fs (Some p) rest ?st4 = (e, st')"
        by (simp add: file_loop_Cons)
      from Cons.IH [OF this] have
        o: "opened st' = opened ?st4 @ replicate (counter st' - counter ?st4) p" and
        c: "counter ?st4 \<le> counter st'" "counter st' \<le> counter ?st4 + length rest"
          "e = None \<longrightarrow> counter st' = counter ?st4 + length rest"
        by simp_all
      have c4: "counter ?st4 = Suc (counter st)" "opened ?st4 = opened st @ [p]"
        by (simp_all add: enter_simps)
      from c(1) c4(1) have "counter st' - counter st = Suc (counter st' - counter ?st4)"
        by simp
      with o c c4 show ?thesis by (simp add: replicate_app_Cons_same)
    qed
  qed
qed

lemma file_loop_valid:
  "load fs p = Inr ob \<Longrightarrow> nat (pos ob) \<le> seq_len ob \<Longrightarrow>
   \<exists>st'. file_loop fs (Some p) paths st = (None, st') \<and>
     bufs st' = foldl paired_add (bufs st) (concat (replicate (length paths) (her_transitions ob)))"
proof (induction paths arbitrary: st)
  case Nil
  then show ?case by simp
next
  case (Cons f rest)
  let ?st4 = "(enter st p)\<lparr>bufs := foldl paired_add (bufs st) (her_transitions ob)\<rparr>"
  from Cons.IH [OF Cons.prems, of ?st4] show ?case
    by (simp add: file_loop_Cons Cons.prems)
qed

lemma file_loop_invalid:
  "load fs p = Inr ob \<Longrightarrow> seq_len ob < nat (pos ob) \<Longrightarrow>
   fst (file_loop fs (Some p) (f # rest) st) = Some IndexError"
  by (simp add: file_loop_Cons)

lemma file_loop_form:
  "\<exists>ts. bufs (snd (file_loop fs fp paths st)) = foldl paired_add (bufs st) ts"
proof (cases fp)
  case None
  show ?thesis
  proof (cases paths)
    case Nil
    then show ?thesis by (intro exI [of _ "[]"]) simp
  next
    case (Cons f rest)
    then show ?thesis using None by (intro exI [of _ "[]"]) (simp add: file_loop_unbound_Cons)
  qed
next
  case (Some p)
  show ?thesis unfolding Some
  proof (induction paths arbitrary: st)
    case Nil
    then show ?case by (intro exI [of _ "[]"]) simp
  next
    case (Cons f rest)
    show ?case
    proof (cases "load fs p")
      case (Inl err)
      then show ?thesis by (intro exI [of _ "[]"]) (simp add: file_loop_Cons enter_simps)
    next
      case (Inr ob)
      show ?thesis
      proof (cases "nat (pos ob) \<le> seq_len ob")
        case False
        then show ?thesis using Inr
          by (intro exI [of _ "map (her_at ob) [0..<seq_len ob]"]) (simp add: file_loop_Cons)
      next
        case True
        let ?st4 = "(enter st p)\<lparr>bufs := foldl paired_add (bufs st) (her_transitions ob)\<rparr>"
        from Cons.IH [of ?st4] obtain ts where
          "bufs (snd (file_loop fs (Some p) rest ?st4)) = foldl paired_add (bufs ?st4) ts" by blast
        then show ?thesis using Inr True
          by (intro exI [of _ "her_transitions ob @ ts"]) (simp add: file_loop_Cons)
      qed
    qed
  qed
qed

section \<open>The circular buffer\<close>

lemma add_fields:
  "buffer_size (add b t) = buffer_size b"
  "total_inserted (add b t) = Suc (total_inserted b)"
  "write_pos (add b t) = Suc (write_pos b) mod buffer_size b"
  "storage (add b t) = (storage b)(write_pos b \<mapsto> t)"
  by (simp_all add: add_def)

lemma new_buffer_fields:
  "buffer_size (new_buffer c) = c"
  "total_inserted (new_buffer c) = 0"
  "write_pos (new_buffer c) = 0"
  "storage (new_buffer c) = Map.empty"
  by (simp_all add: new_buffer_def)

lemma foldl_add_size: "buffer_size (foldl add b xs) = buffer_size b"
  by (induction xs arbitrary: b) (simp_all add: add_fields)

lemma foldl_add_total: "total_inserted (foldl add b xs) = total_inserted b + length xs"
  by (induction xs arbitrary: b) (simp_all add: add_fields)

lemma foldl_add_pos:
  "write_pos (foldl add (new_buffer c) xs) = length xs mod c"
proof (induction xs rule: rev_induct)
  case Nil
  then show ?case by (simp add: new_buffer_fields)
next
  case (snoc x xs)
  then show ?case
    by (simp add: add_fields foldl_add_size new_buffer_fields mod_Suc_eq)
qed

text \<open>
  Among the last \<open>c\<close> insertions no two share a slot, so each of them is still where
  it was written.
\<close>

lemma foldl_add_storage:
  "0 < c \<Longrightarrow> k < length xs \<Longrightarrow> length xs \<le> k + c \<Longrightarrow>
   storage (foldl add (new_buffer c) xs) (k mod c) = Some (xs ! k)"
proof (induction xs rule: rev_induct)
  case Nil
  then show ?case by simp
next
  case (snoc x xs)
  show ?case
  proof (cases "k = length xs")
    case True
    then show ?thesis by (simp add: add_fields foldl_add_pos)
  next
    case False
    with snoc.prems have k: "k < length xs" "length xs \<le> k + c" by simp_all
    have ne: "length xs mod c \<noteq> k mod c"
    proof
      assume eq: "length xs mod c = k mod c"
      have "(length xs - k) mod c = 0"
        using k(1) eq by (metis less_imp_le_nat mod_eq_dvd_iff_nat dvd_imp_mod_0)
      moreover have "0 < length xs - k" "length xs - k < c" using k snoc.prems by simp_all
      ultimately show False by simp
    qed
    from snoc.IH [OF snoc.prems(1) k] ne k(1) show ?thesis
      by (simp add: add_fields foldl_add_pos nth_append)
  qed
qed

lemma foldl_add_contents:
  assumes c: "0 < c"
  shows "contents (foldl add (new_buffer c) xs) = map Some (drop (length xs - c) xs)"
proof (cases "length xs \<le> c")
  case True
  have "map (storage (foldl add (new_buffer c) xs)) [0..<length xs] = map Some xs"
  proof (rule nth_equalityI)
    show "length (map (storage (foldl add (new_buffer c) xs)) [0..<length xs]) = length (map Some xs)"
      by simp
  next
    fix i assume "i < length (map (storage (foldl add (new_buffer c) xs)) [0..<length xs])"
    then have i: "i < length xs" by simp
    with True have "i mod c = i" by simp
    with foldl_add_storage [OF c i] True i
    show "map (storage (foldl add (new_buffer c) xs)) [0..<length xs] ! i = map Some xs ! i"
      by simp
  qed
  with True show ?thesis
    by (simp add: contents_def foldl_add_total foldl_add_size new_buffer_fields)
next
  case False
  let ?n = "length xs"
  let ?b = "foldl add (new_buffer c) xs"
  have "map (\<lambda>k. storage ?b ((?n mod c + k) mod c)) [0..<c] = map Some (drop (?n - c) xs)"
  proof (rule nth_equalityI)
    show "length (map (\<lambda>k. storage ?b ((?n mod c + k) mod c)) [0..<c]) =
          length (map Some (drop (?n - c) xs))"
      using False by simp
  next
    fix i assume "i < length (map (\<lambda>k. storage ?b ((?n mod c + k) mod c)) [0..<c])"
    then have i: "i < c" by simp
    let ?k = "?n - c + i"
    have k: "?k < ?n" "?n \<le> ?k + c" using i False by simp_all
    have "?k + c = ?n + i" using False by simp
    then have "(?k + c) mod c = (?n + i) mod c" by simp
    then have "?k mod c = (?n mod c + i) mod c" by (simp add: mod_add_left_eq)
    with foldl_add_storage [OF c k] i False
    show "map (\<lambda>k. storage ?b ((?n mod c + k) mod c)) [0..<c] ! i =
          map Some (drop (?n - c) xs) ! i"
      by simp
  qed
  with False show ?thesis
    by (simp add: contents_def foldl_add_total foldl_add_size foldl_add_pos new_buffer_fields)
qed

lemma foldl_add_dom:
  "0 < c \<Longrightarrow> (storage (foldl add (new_buffer c) xs) j \<noteq> None) = (j < min (length xs) c)"
proof (induction xs rule: rev_induct)
  case Nil
  then show ?case by (simp add: new_buffer_fields)
next
  case (snoc x xs)
  show ?case
  proof (cases "length xs < c")
    case True
    with snoc show ?thesis
      by (auto simp add: add_fields foldl_add_pos)
  next
    case False
    with snoc show ?thesis
      by (auto simp add: add_fields foldl_add_pos)
  qed
qed

lemma held_foldl_add: "held (foldl add (new_buffer c) xs) = min (length xs) c"
  by (simp add: held_def foldl_add_total foldl_add_size new_buffer_fields)

lemma foldl_add_map_storage:
  "storage (foldl add (new_buffer c) (map f xs)) j =
   map_option f (storage (foldl add (new_buffer c) xs) j)"
proof (induction xs rule: rev_induct)
  case Nil
  then show ?case by (simp add: new_buffer_fields)
next
  case (snoc x xs)
  then show ?case by (simp add: add_fields foldl_add_pos)
qed

lemma foldl_paired_add:
  "replay_buffer (foldl paired_add b ts) = foldl add (replay_buffer b) ts \<and>
   plain_replay_buffer (foldl paired_add b ts) = foldl add (plain_replay_buffer b) (map flatten ts)"
  by (induction ts arbitrary: b) (simp_all add: paired_add_def)

lemma length_copies: "length (concat (replicate n xs)) = n * length xs"
  by (induction n) simp_all

lemma length_her_transitions: "length (her_transitions ob) = nat (pos ob)"
  by (simp add: her_transitions_def)

lemma length_plain_transitions: "length (plain_transitions ob) = nat (pos ob)"
  by (simp add: plain_transitions_def)

lemma flatten_her_at: "flatten (her_at ob i) = plain_at ob i"
  by (simp add: flatten_def her_at_def plain_at_def)

lemma map_flatten_her_transitions: "map flatten (her_transitions ob) = plain_transitions ob"
  by (simp add: her_transitions_def plain_transitions_def flatten_her_at)

lemma map_flatten_copies:
  "map flatten (concat (replicate n (her_transitions ob))) = concat (replicate n (plain_transitions ob))"
  by (induction n) (simp_all add: map_flatten_her_transitions)

section \<open>The run\<close>

lemma init_bufs:
  "replay_buffer (bufs init_state) = new_buffer 36090"
  "plain_replay_buffer (bufs init_state) = new_buffer 36090"
  "counter init_state = 0" "opened init_state = []" "printed init_state = []"
  by (simp_all add: init_state_def)

lemma reconstruct_listing:
  "listdir fs directory_path = Some names \<Longrightarrow>
   reconstruct fs =
     Inr (file_loop fs (if pkl_paths names = [] then None else Some (last (pkl_paths names)))
            (pkl_paths names) init_state)"
  by (simp add: reconstruct_def collect_eq)

lemma reconstruct_missing:
  "listdir fs directory_path = None \<Longrightarrow> reconstruct fs = Inl FileNotFoundError"
  by (simp add: reconstruct_def)

lemma reconstruct_form:
  assumes "reconstruct fs = Inr (e, st)"
  shows "\<exists>ts. replay_buffer (bufs st) = foldl add (new_buffer 36090) ts \<and>
              plain_replay_buffer (bufs st) = foldl add (new_buffer 36090) (map flatten ts)"
proof -
  from assms obtain names where n: "listdir fs directory_path = Some names"
    by (cases "listdir fs directory_path") (simp_all add: reconstruct_def)
  let ?fp = "if pkl_paths names = [] then None else Some (last (pkl_paths names))"
  from assms have "st = snd (file_loop fs ?fp (pkl_paths names) init_state)"
    by (simp add: reconstruct_listing [OF n])
  with file_loop_form [of fs ?fp "pkl_paths names" init_state]
  obtain ts where "bufs st = foldl paired_add (bufs init_state) ts" by auto
  then show ?thesis using foldl_paired_add [of "bufs init_state" ts]
    by (intro exI [of _ ts]) (simp add: init_bufs)
qed

lemma reconstruct_valid:
  assumes "listdir fs directory_path = Some names" and "pkl_paths names \<noteq> []"
    and "load fs (last (pkl_paths names)) = Inr ob" and "nat (pos ob) \<le> seq_len ob"
  shows "\<exists>st. reconstruct fs = Inr (None, st) \<and>
     replay_buffer (bufs st) =
       foldl add (new_buffer 36090) (concat (replicate (length (pkl_paths names)) (her_transitions ob))) \<and>
     plain_replay_buffer (bufs st) =
       foldl add (new_buffer 36090) (concat (replicate (length (pkl_paths names)) (plain_transitions ob)))"
proof -
  from file_loop_valid [OF assms(3,4), of "pkl_paths names" init_state]
  obtain st where st: "file_loop fs (Some (last (pkl_paths names))) (pkl_paths names) init_state = (None, st)"
    "bufs st = foldl paired_add (bufs init_state)
       (concat (replicate (length (pkl_paths names)) (her_transitions ob)))" by blast
  have "reconstruct fs = Inr (None, st)"
    using st(1) assms(2) by (simp add: reconstruct_listing [OF assms(1)])
  then show ?thesis using st(2)
    by (intro exI [of _ st]) (simp add: foldl_paired_add init_bufs map_flatten_copies)
qed

lemma debug_valid:
  assumes "listdir fs directory_path = Some names" and "pkl_paths names \<noteq> []"
    and "load fs (last (pkl_paths names)) = Inr ob" and "nat (pos ob) \<le> seq_len ob"
  shows "debug a fs =
     \<lparr>raised = None,
      written =
        [(save_path_her, HerDump (foldl add (new_buffer 36090)
            (concat (replicate (length (pkl_paths names)) (her_transitions ob))))),
         (save_path_plain, PlainDump (foldl add (new_buffer 36090)
            (concat (replicate (length (pkl_paths names)) (plain_transitions ob)))))]\<rparr>"
proof -
  from reconstruct_valid [OF assms] obtain st where
    "reconstruct fs = Inr (None, st)"
    "replay_buffer (bufs st) =
       foldl add (new_buffer 36090) (concat (replicate (length (pkl_paths names)) (her_transitions ob)))"
    "plain_replay_buffer (bufs st) =
       foldl add (new_buffer 36090) (concat (replicate (length (pkl_paths names)) (plain_transitions ob)))"
    by blast
  then show ?thesis by (simp add: debug_def)
qed

text \<open>
  When the recording that is opened declares more entries than it holds, the run raises
  \<open>IndexError\<close> and writes nothing.
\<close>

lemma debug_invalid:
  assumes "listdir fs directory_path = Some names" and "pkl_paths names \<noteq> []"
    and "load fs (last (pkl_paths names)) = Inr ob" and "seq_len ob < nat (pos ob)"
  shows "debug a fs = \<lparr>raised = Some IndexError, written = []\<rparr>"
proof -
  from assms(2) obtain f rest where p: "pkl_paths names = f # rest"
    by (cases "pkl_paths names") simp_all
  have "fst (file_loop fs (Some (last (pkl_paths names))) (pkl_paths names) init_state) = Some IndexError"
    unfolding p using file_loop_invalid [OF assms(3,4), of f rest init_state] p by simp
  then obtain st where "reconstruct fs = Inr (Some IndexError, st)"
    using assms(2) by (cases "file_loop fs (Some (last (pkl_paths names))) (pkl_paths names) init_state")
      (simp add: reconstruct_listing [OF assms(1)])
  then show ?thesis by (simp add: debug_def)
qed

lemma debug_cong:
  assumes "listdir fs directory_path = Some names" and "listdir fs' directory_path = Some names"
    and "pkl_paths names \<noteq> [] \<Longrightarrow> files fs' (last (pkl_paths names)) = files fs (last (pkl_paths names))"
  shows "reconstruct fs' = reconstruct fs"
proof (cases "pkl_paths names = []")
  case True
  then show ?thesis
    by (simp add: reconstruct_listing [OF assms(1)] reconstruct_listing [OF assms(2)])
next
  case False
  with assms(3) have "load fs' (last (pkl_paths names)) = load fs (last (pkl_paths names))"
    by (simp add: load_def)
  from file_loop_load_cong [OF this] False show ?thesis
    by (simp add: reconstruct_listing [OF assms(1)] reconstruct_listing [OF assms(2)])
qed

lemma paired_slots:
  assumes r: "reconstruct fs = Inr (e, st)" and i: "i < held (plain_replay_buffer (bufs st))"
  shows "\<exists>t. storage (replay_buffer (bufs st)) i = Some t \<and>
             storage (plain_replay_buffer (bufs st)) i = Some (flatten t)"
proof -
  from reconstruct_form [OF r] obtain ts where
    h: "replay_buffer (bufs st) = foldl add (new_buffer 36090) ts" and
    p: "plain_replay_buffer (bufs st) = foldl add (new_buffer 36090) (map flatten ts)"
    by blast
  from i have "i < min (length ts) 36090" by (simp add: p held_foldl_add)
  then have "storage (foldl add (new_buffer 36090) ts) i \<noteq> None"
    using foldl_add_dom [of 36090 ts i] by simp
  then obtain t where t: "storage (foldl add (new_buffer 36090) ts) i = Some t" by blast
  show ?thesis
    by (intro exI [of _ t]) (simp add: h p t foldl_add_map_storage)
qed

subsection \<open>The states after each paired insertion\<close>

lemma balanced_paired_add: "balanced b \<Longrightarrow> balanced (paired_add b t)"
  by (simp add: balanced_def paired_add_def add_fields)

lemma balanced_init: "balanced (bufs init_state)"
  by (simp add: balanced_def init_bufs new_buffer_fields)

lemma insert_states_last:
  "snd (insert_loop ob i n b) = last (b # insert_states ob i n b)"
proof (induction n arbitrary: i b)
  case 0
  then show ?case by simp
next
  case (Suc n)
  show ?case
    by (cases "in_range ob i") (simp_all add: paired_insert_eq Suc.IH)
qed

text \<open>
Each state of the trace is the state of the loop after that many passes.
\<close>

lemma insert_states_nth:
  "k < length (insert_states ob i n b) \<Longrightarrow>
   insert_states ob i n b ! k = snd (insert_loop ob i (Suc k) b)"
proof (induction n arbitrary: i b k)
  case 0
  then show ?case by simp
next
  case (Suc n)
  show ?case
  proof (cases "in_range ob i")
    case False
    with Suc.prems show ?thesis by (simp add: paired_insert_eq)
  next
    case True
    show ?thesis
    proof (cases k)
      case 0
      with True show ?thesis by (simp add: paired_insert_eq)
    next
      case (Suc j)
      with Suc.prems True have "j < length (insert_states ob (Suc i) n (paired_add b (her_at ob i)))"
        by (simp add: paired_insert_eq)
      from Suc.IH [OF this] True Suc show ?thesis by (simp add: paired_insert_eq)
    qed
  qed
qed

lemma insert_states_balanced:
  "balanced b \<Longrightarrow> b' \<in> set (insert_states ob i n b) \<Longrightarrow> balanced b'"
proof (induction n arbitrary: i b)
  case 0
  then show ?case by simp
next
  case (Suc n)
  show ?case
  proof (cases "in_range ob i")
    case True
    with Suc.prems(2) have "b' = paired_add b (her_at ob i) \<or>
        b' \<in> set (insert_states ob (Suc i) n (paired_add b (her_at ob i)))"
      by (simp add: paired_insert_eq)
    then show ?thesis
      using Suc.IH [OF balanced_paired_add [OF Suc.prems(1)]] balanced_paired_add [OF Suc.prems(1)]
      by blast
  next
    case False
    with Suc.prems(2) show ?thesis by (simp add: paired_insert_eq)
  qed
qed

lemma insert_states_length:
  "i \<le> seq_len ob \<Longrightarrow> length (insert_states ob i n b) = min n (seq_len ob - i)"
proof (induction n arbitrary: i b)
  case 0
  then show ?case by simp
next
  case (Suc n)
  show ?case
  proof (cases "i < seq_len ob")
    case True
    then have "Suc i \<le> seq_len ob" by simp
    from Suc.IH [OF this] True show ?thesis
      by (simp add: paired_insert_eq in_range_seq_len)
  next
    case False
    with Suc.prems show ?thesis by (simp add: paired_insert_eq in_range_seq_len)
  qed
qed

lemma file_states_last:
  "bufs (snd (file_loop fs fp paths st)) = last (bufs st # file_states fs fp paths (bufs st))"
proof (induction paths arbitrary: st)
  case Nil
  then show ?case by simp
next
  case (Cons f rest)
  show ?case
  proof (cases fp)
    case None
    then show ?thesis by (simp add: file_loop_unbound_Cons)
  next
    case (Some p)
    show ?thesis
    proof (cases "load fs p")
      case (Inl err)
      then show ?thesis using Some by (simp add: file_loop_Cons enter_simps)
    next
      case (Inr ob)
      obtain e1 b1 where il: "insert_loop ob 0 (nat (pos ob)) (bufs st) = (e1, b1)"
        by (cases "insert_loop ob 0 (nat (pos ob)) (bufs st)")
      have b1: "b1 = last (bufs st # insert_states ob 0 (nat (pos ob)) (bufs st))"
        using insert_states_last [of ob 0 "nat (pos ob)" "bufs st"] il by simp
      show ?thesis
      proof (cases e1)
        case None
        with il have v: "nat (pos ob) \<le> seq_len ob"
          by (simp add: insert_loop_eq split: if_splits)
        with il None have b1': "b1 = foldl paired_add (bufs st) (her_transitions ob)"
          by (simp add: insert_loop_valid)
        let ?st4 = "(enter st p)\<lparr>bufs := b1\<rparr>"
        have "bufs (snd (file_loop fs (Some p) (f # rest) st)) =
              bufs (snd (file_loop fs (Some p) rest ?st4))"
          using Inr v b1' by (simp add: file_loop_Cons)
        also have "\<dots> = last (b1 # file_states fs (Some p) rest b1)"
          using Cons.IH [of ?st4] Some by simp
        finally show ?thesis using Some Inr il None b1
          by (simp add: last_append)
      next
        case (Some err)
        with il have v: "\<not> nat (pos ob) \<le> seq_len ob"
          by (simp add: insert_loop_eq split: if_splits)
        with il have "b1 = foldl paired_add (bufs st) (map (her_at ob) [0..<seq_len ob])"
          by (simp add: insert_loop_eq min_def)
        then show ?thesis using \<open>fp = Some p\<close> Inr il Some b1 v
          by (simp add: file_loop_Cons)
      qed
    qed
  qed
qed

lemma file_states_balanced:
  "balanced b \<Longrightarrow> b' \<in> set (file_states fs fp paths b) \<Longrightarrow> balanced b'"
proof (induction paths arbitrary: b)
  case Nil
  then show ?case by simp
next
  case (Cons f rest)
  show ?case
  proof (cases fp)
    case None
    with Cons.prems show ?thesis by simp
  next
    case (Some p)
    show ?thesis
    proof (cases "load fs p")
      case (Inl err)
      with Cons.prems Some show ?thesis by simp
    next
      case (Inr ob)
      obtain e1 b1 where il: "insert_loop ob 0 (nat (pos ob)) b = (e1, b1)"
        by (cases "insert_loop ob 0 (nat (pos ob)) b")
      have "b1 = last (b # insert_states ob 0 (nat (pos ob)) b)"
        using insert_states_last [of ob 0 "nat (pos ob)" b] il by simp
      then have bb1: "balanced b1"
        using insert_states_balanced [OF Cons.prems(1), of _ ob 0 "nat (pos ob)"] Cons.prems(1)
        by (cases "insert_states ob 0 (nat (pos ob)) b = []") simp_all
      from Cons.prems(2) Some Inr il have
        "b' \<in> set (insert_states ob 0 (nat (pos ob)) b) \<or>
         (e1 = None \<and> b' \<in> set (file_states fs fp rest b1))"
        by (cases e1) auto
      then show ?thesis
        using insert_states_balanced [OF Cons.prems(1)] Cons.IH [OF bb1] by blast
    qed
  qed
qed

lemma file_states_valid:
  "load fs p = Inr ob \<Longrightarrow> nat (pos ob) \<le> seq_len ob \<Longrightarrow>
   length (file_states fs (Some p) paths b) = length paths * nat (pos ob)"
proof (induction paths arbitrary: b)
  case Nil
  then show ?case by simp
next
  case (Cons f rest)
  from Cons.prems(2) have "length (insert_states ob 0 (nat (pos ob)) b) = nat (pos ob)"
    by (simp add: insert_states_length)
  then show ?case using Cons.prems Cons.IH [OF Cons.prems]
    by (simp add: insert_loop_valid)
qed

lemma reconstruct_states_listing:
  "listdir fs directory_path = Some names \<Longrightarrow>
   reconstruct_states fs =
     bufs init_state #
     file_states fs (if pkl_paths names = [] then None else Some (last (pkl_paths names)))
       (pkl_paths names) (bufs init_state)"
  by (simp add: reconstruct_states_def collect_eq)

lemma reconstruct_states_balanced:
  "b \<in> set (reconstruct_states fs) \<Longrightarrow> balanced b"
proof (cases "listdir fs directory_path")
  case None
  assume "b \<in> set (reconstruct_states fs)"
  with None show ?thesis by (simp add: reconstruct_states_def)
next
  case (Some names)
  assume "b \<in> set (reconstruct_states fs)"
  then show ?thesis
    using file_states_balanced [OF balanced_init] balanced_init
    by (auto simp add: reconstruct_states_listing [OF Some])
qed

lemma reconstruct_states_last:
  "reconstruct fs = Inr (e, st) \<Longrightarrow>
   reconstruct_states fs \<noteq> [] \<and> bufs st = last (reconstruct_states fs)"
proof -
  assume r: "reconstruct fs = Inr (e, st)"
  then obtain names where n: "listdir fs directory_path = Some names"
    by (cases "listdir fs directory_path") (simp_all add: reconstruct_def)
  let ?fp = "if pkl_paths names = [] then None else Some (last (pkl_paths names))"
  from r have "st = snd (file_loop fs ?fp (pkl_paths names) init_state)"
    by (simp add: reconstruct_listing [OF n])
  then show ?thesis
    using file_states_last [of fs ?fp "pkl_paths names" init_state]
    by (simp add: reconstruct_states_listing [OF n])
qed

subsection \<open>Facts about the concrete inputs\<close>

lemma path_join_directory:
  "path_join directory_path f =
     (if f \<noteq> [] \<and> hd f = CHR ''/'' then f else directory_path @ ''/'' @ f)"
  by (simp add: path_join_def directory_path_def)

lemma listdir_dir_with: "listdir (dir_with es) directory_path = Some (map fst es)"
  by (simp add: dir_with_def)

lemma seq_len_recorded: "seq_len (recorded p xs) = length xs"
  by (simp add: seq_len_def recorded_def)

lemma pos_recorded: "pos (recorded p xs) = p"
  by (simp add: recorded_def)

lemma fs_two_facts:
  "listdir fs_two directory_path = Some [''a.pkl'', ''b.pkl'']"
  "pkl_paths [''a.pkl'', ''b.pkl''] = [directory_path @ ''/a.pkl'', directory_path @ ''/b.pkl'']"
  "load fs_two (directory_path @ ''/b.pkl'') = Inr (recorded 2 [10, 20])"
  by (simp_all add: fs_two_def listdir_dir_with pkl_paths_def endswith_def path_join_directory
        dir_with_def load_def)

lemma fs_two_last:
  "pkl_paths [''a.pkl'', ''b.pkl''] \<noteq> []"
  "last (pkl_paths [''a.pkl'', ''b.pkl'']) = directory_path @ ''/b.pkl''"
  "length (pkl_paths [''a.pkl'', ''b.pkl'']) = 2"
  by (simp_all add: fs_two_facts)

lemma recorded_two_valid:
  "nat (pos (recorded 2 [10, 20])) \<le> seq_len (recorded 2 [10, 20])"
  by (simp add: seq_len_recorded pos_recorded)

lemma her_transitions_two:
  "her_transitions (recorded 2 [10, 20]) = [her_at (recorded 2 [10, 20]) 0, her_at (recorded 2 [10, 20]) 1]"
  by (simp add: her_transitions_def pos_recorded upt_conv_Cons)

lemma plain_transitions_two:
  "plain_transitions (recorded 2 [10, 20]) = [plain_at (recorded 2 [10, 20]) 0, plain_at (recorded 2 [10, 20]) 1]"
  by (simp add: plain_transitions_def pos_recorded upt_conv_Cons)

lemma reconstruct_fs_two:
  "\<exists>st. reconstruct fs_two = Inr (None, st) \<and>
     replay_buffer (bufs st) = foldl add (new_buffer 36090)
       [her_at (recorded 2 [10, 20]) 0, her_at (recorded 2 [10, 20]) 1,
        her_at (recorded 2 [10, 20]) 0, her_at (recorded 2 [10, 20]) 1] \<and>
     plain_replay_buffer (bufs st) = foldl add (new_buffer 36090)
       [plain_at (recorded 2 [10, 20]) 0, plain_at (recorded 2 [10, 20]) 1,
        plain_at (recorded 2 [10, 20]) 0, plain_at (recorded 2 [10, 20]) 1]"
proof -
  have l: "load fs_two (last (pkl_paths [''a.pkl'', ''b.pkl''])) = Inr (recorded 2 [10, 20])"
    by (simp add: fs_two_facts)
  from reconstruct_valid [OF fs_two_facts(1) fs_two_last(1) l recorded_two_valid]
  show ?thesis
    by (simp add: fs_two_last(3) her_transitions_two plain_transitions_two numeral_2_eq_2)
qed

lemma fs_two_altered_facts:
  "listdir fs_two_altered directory_path = Some [''a.pkl'', ''b.pkl'']"
  "files fs_two_altered (directory_path @ ''/b.pkl'') = files fs_two (directory_path @ ''/b.pkl'')"
  "files fs_two_altered (directory_path @ ''/a.pkl'') \<noteq> files fs_two (directory_path @ ''/a.pkl'')"
  by (simp_all add: fs_two_altered_def fs_two_def listdir_dir_with dir_with_def path_join_directory)

lemma fs_two_elsewhere_facts:
  "listdir fs_two_elsewhere directory_path = listdir fs_two directory_path"
  "files fs_two_elsewhere = files fs_two"
  "listdir fs_two_elsewhere ''/tmp'' \<noteq> listdir fs_two ''/tmp''"
  by (simp_all add: fs_two_elsewhere_def fs_two_def dir_with_def directory_path_def)

lemma fs_short_first_facts:
  "listdir fs_short_first directory_path = Some [''a.pkl'', ''b.pkl'']"
  "load fs_short_first (directory_path @ ''/b.pkl'') = Inr (recorded 1 [10])"
  "load fs_short_first (directory_path @ ''/a.pkl'') = Inr (recorded 10 [5, 6, 7])"
  by (simp_all add: fs_short_first_def listdir_dir_with path_join_directory dir_with_def load_def)

lemma fs_three_facts:
  "load fs_three (directory_path @ ''/r.pkl'') = Inr (recorded 3 [5, 6, 7])"
  by (simp add: fs_three_def path_join_directory dir_with_def load_def)

lemma transitions_three:
  "her_transitions (recorded 3 [5, 6, 7]) =
     [her_at (recorded 3 [5, 6, 7]) 0, her_at (recorded 3 [5, 6, 7]) 1, her_at (recorded 3 [5, 6, 7]) 2]"
  "plain_transitions (recorded 3 [5, 6, 7]) =
     [plain_at (recorded 3 [5, 6, 7]) 0, plain_at (recorded 3 [5, 6, 7]) 1,
      plain_at (recorded 3 [5, 6, 7]) 2]"
  by (simp_all add: her_transitions_def plain_transitions_def pos_recorded upt_conv_Cons
        numeral_2_eq_2)

section \<open>Properties of the reconstruction\<close>

text \<open>
  C1. For recordings whose declared counts sum to \<open>T\<close>, at most the capacity, both
  buffers should report \<open>T\<close> inserted transitions. The run does not do this: with two
  recordings of one and two transitions (\<open>T = 3\<close>), enumerated in that order, it opens
  the second file twice and both dumped buffers report four insertions.
\<close>

theorem two_recordings_inserted_count:
  "nat (pos (recorded 1 [5])) + nat (pos (recorded 2 [10, 20])) = 3 \<and>
   raised (debug default_args fs_two) = None \<and>
   map (inserted \<circ> snd) (written (debug default_args fs_two)) = [4, 4]"
proof -
  have l: "load fs_two (last (pkl_paths [''a.pkl'', ''b.pkl''])) = Inr (recorded 2 [10, 20])"
    by (simp add: fs_two_facts)
  show ?thesis
    by (simp add: debug_valid [OF fs_two_facts(1) fs_two_last(1) l recorded_two_valid] inserted_def
        foldl_add_total new_buffer_fields fs_two_facts(2) her_transitions_def
        plain_transitions_def pos_recorded)
qed

text \<open>
  C2. When the directory holds at least one \<open>.pkl\<close> file, every pass of the loop opens
  the last path of the enumeration; if that recording holds what it declares, the run
  dumps buffers that received its transitions once per enumerated file, in order; and
  a file system with the same listing and the same file at that path gives the same
  outcome, whatever the other files hold.
\<close>

theorem last_path_only:
  assumes "listdir fs directory_path = Some names" and "pkl_paths names \<noteq> []"
  shows "(\<forall>e st. reconstruct fs = Inr (e, st) \<longrightarrow>
            opened st = replicate (counter st) (last (pkl_paths names)) \<and>
            counter st \<le> length (pkl_paths names) \<and>
            (e = None \<longrightarrow> counter st = length (pkl_paths names))) \<and>
         (\<forall>ob. load fs (last (pkl_paths names)) = Inr ob \<and> nat (pos ob) \<le> seq_len ob \<longrightarrow>
            debug a fs =
              \<lparr>raised = None,
               written =
                 [(save_path_her, HerDump (foldl add (new_buffer 36090)
                     (concat (replicate (length (pkl_paths names)) (her_transitions ob))))),
                  (save_path_plain, PlainDump (foldl add (new_buffer 36090)
                     (concat (replicate (length (pkl_paths names)) (plain_transitions ob)))))]\<rparr>) \<and>
         (\<forall>fs'. listdir fs' directory_path = Some names \<and>
                files fs' (last (pkl_paths names)) = files fs (last (pkl_paths names)) \<longrightarrow>
                debug a fs' = debug a fs)"
proof (intro conjI allI impI)
  fix e st
  assume "reconstruct fs = Inr (e, st)"
  then have fl: "file_loop fs (Some (last (pkl_paths names))) (pkl_paths names) init_state = (e, st)"
    using assms(2) by (simp add: reconstruct_listing [OF assms(1)])
  from file_loop_opened [OF fl]
  show "opened st = replicate (counter st) (last (pkl_paths names))"
    and "counter st \<le> length (pkl_paths names)"
    by (simp_all add: init_bufs)
  assume "e = None"
  with file_loop_opened [OF fl] show "counter st = length (pkl_paths names)"
    by (simp add: init_bufs)
next
  fix ob
  assume "load fs (last (pkl_paths names)) = Inr ob \<and> nat (pos ob) \<le> seq_len ob"
  then show "debug a fs =
      \<lparr>raised = None,
       written =
         [(save_path_her, HerDump (foldl add (new_buffer 36090)
             (concat (replicate (length (pkl_paths names)) (her_transitions ob))))),
          (save_path_plain, PlainDump (foldl add (new_buffer 36090)
             (concat (replicate (length (pkl_paths names)) (plain_transitions ob)))))]\<rparr>"
    using debug_valid [OF assms] by blast
next
  fix fs' :: "('a, 'b, 'c) filesystem"
  assume "listdir fs' directory_path = Some names \<and>
          files fs' (last (pkl_paths names)) = files fs (last (pkl_paths names))"
  then have "reconstruct fs' = reconstruct fs"
    using debug_cong [OF assms(1), of fs'] by blast
  then show "debug a fs' = debug a fs" by (simp add: debug_def)
qed

theorem last_path_only_witness:
  "listdir fs_two directory_path = Some [''a.pkl'', ''b.pkl''] \<and>
   pkl_paths [''a.pkl'', ''b.pkl''] \<noteq> [] \<and>
   (\<exists>st. reconstruct fs_two = Inr (None, st) \<and>
      opened st = [directory_path @ ''/b.pkl'', directory_path @ ''/b.pkl'']) \<and>
   files fs_two_altered (directory_path @ ''/a.pkl'') \<noteq> files fs_two (directory_path @ ''/a.pkl'') \<and>
   debug default_args fs_two_altered = debug default_args fs_two \<and>
   debug default_args fs_two =
     \<lparr>raised = None,
      written =
        [(save_path_her, HerDump (foldl add (new_buffer 36090)
            [her_at (recorded 2 [10, 20]) 0, her_at (recorded 2 [10, 20]) 1,
             her_at (recorded 2 [10, 20]) 0, her_at (recorded 2 [10, 20]) 1])),
         (save_path_plain, PlainDump (foldl add (new_buffer 36090)
            [plain_at (recorded 2 [10, 20]) 0, plain_at (recorded 2 [10, 20]) 1,
             plain_at (recorded 2 [10, 20]) 0, plain_at (recorded 2 [10, 20]) 1]))]\<rparr>"
proof -
  note t = last_path_only [OF fs_two_facts(1) fs_two_last(1), of default_args]
  have l: "load fs_two (last (pkl_paths [''a.pkl'', ''b.pkl''])) = Inr (recorded 2 [10, 20])"
    by (simp add: fs_two_facts)
  from reconstruct_fs_two obtain st where r: "reconstruct fs_two = Inr (None, st)" by blast
  with t have "opened st = replicate (counter st) (last (pkl_paths [''a.pkl'', ''b.pkl''])) \<and>
     counter st = length (pkl_paths [''a.pkl'', ''b.pkl''])" by blast
  then have o: "opened st = [directory_path @ ''/b.pkl'', directory_path @ ''/b.pkl'']"
    by (simp add: fs_two_last numeral_2_eq_2)
  from t have c: "debug default_args fs_two_altered = debug default_args fs_two"
    using fs_two_altered_facts(1,2) fs_two_last(2) by simp
  from t l recorded_two_valid have "debug default_args fs_two =
     \<lparr>raised = None,
      written =
        [(save_path_her, HerDump (foldl add (new_buffer 36090)
            (concat (replicate (length (pkl_paths [''a.pkl'', ''b.pkl''])) (her_transitions (recorded 2 [10, 20])))))),
         (save_path_plain, PlainDump (foldl add (new_buffer 36090)
            (concat (replicate (length (pkl_paths [''a.pkl'', ''b.pkl''])) (plain_transitions (recorded 2 [10, 20]))))))]\<rparr>"
    by blast
  then have d: "debug default_args fs_two =
     \<lparr>raised = None,
      written =
        [(save_path_her, HerDump (foldl add (new_buffer 36090)
            [her_at (recorded 2 [10, 20]) 0, her_at (recorded 2 [10, 20]) 1,
             her_at (recorded 2 [10, 20]) 0, her_at (recorded 2 [10, 20]) 1])),
         (save_path_plain, PlainDump (foldl add (new_buffer 36090)
            [plain_at (recorded 2 [10, 20]) 0, plain_at (recorded 2 [10, 20]) 1,
             plain_at (recorded 2 [10, 20]) 0, plain_at (recorded 2 [10, 20]) 1]))]\<rparr>"
    by (simp add: fs_two_last(3) her_transitions_two plain_transitions_two numeral_2_eq_2)
  from r o have "\<exists>st. reconstruct fs_two = Inr (None, st) \<and>
      opened st = [directory_path @ ''/b.pkl'', directory_path @ ''/b.pkl'']" by blast
  with fs_two_facts(1) fs_two_last(1) fs_two_altered_facts(3) c d show ?thesis by blast
qed

text \<open>
  C3. Pairing invariant: at every index that holds an inserted transition, the plain
  buffer and the goal-conditioned buffer both hold a transition, and the two agree on
  action, reward, done flag and info. The statement covers the buffers of a run that
  ends normally and those of a run that raises.
\<close>

theorem pairing_invariant:
  assumes "reconstruct fs = Inr (e, st)" and "i < held (plain_replay_buffer (bufs st))"
  shows "\<exists>t u. storage (replay_buffer (bufs st)) i = Some t \<and>
               storage (plain_replay_buffer (bufs st)) i = Some u \<and>
               action u = action t \<and> reward u = reward t \<and>
               done_flag u = done_flag t \<and> info u = info t"
proof -
  from paired_slots [OF assms] obtain t where
    "storage (replay_buffer (bufs st)) i = Some t"
    "storage (plain_replay_buffer (bufs st)) i = Some (flatten t)" by blast
  then show ?thesis
    by (intro exI [of _ t] exI [of _ "flatten t"]) (simp add: flatten_def)
qed

theorem pairing_invariant_witness:
  "\<exists>st. reconstruct fs_two = Inr (None, st) \<and>
     3 < held (plain_replay_buffer (bufs st)) \<and>
     (\<exists>t u. storage (replay_buffer (bufs st)) 3 = Some t \<and>
            storage (plain_replay_buffer (bufs st)) 3 = Some u \<and>
            action u = action t \<and> reward u = reward t \<and>
            done_flag u = done_flag t \<and> info u = info t)"
proof -
  from reconstruct_fs_two obtain st where
    r: "reconstruct fs_two = Inr (None, st)" and
    p: "plain_replay_buffer (bufs st) = foldl add (new_buffer 36090)
       [plain_at (recorded 2 [10, 20]) 0, plain_at (recorded 2 [10, 20]) 1,
        plain_at (recorded 2 [10, 20]) 0, plain_at (recorded 2 [10, 20]) 1]" by blast
  have h: "3 < held (plain_replay_buffer (bufs st))"
    unfolding p held_foldl_add by simp
  from pairing_invariant [OF r h] r h show ?thesis by blast
qed

text \<open>
  C4. Projection invariant: at every index that holds an inserted transition, the
  observation and the next observation of the plain buffer are the \<open>"observation"\<close>
  components of those of the goal-conditioned buffer.
\<close>

theorem projection_invariant:
  assumes "reconstruct fs = Inr (e, st)" and "i < held (plain_replay_buffer (bufs st))"
  shows "\<exists>t u. storage (replay_buffer (bufs st)) i = Some t \<and>
               storage (plain_replay_buffer (bufs st)) i = Some u \<and>
               obs u = observation (obs t) \<and> next_obs u = observation (next_obs t)"
proof -
  from paired_slots [OF assms] obtain t where
    "storage (replay_buffer (bufs st)) i = Some t"
    "storage (plain_replay_buffer (bufs st)) i = Some (flatten t)" by blast
  then show ?thesis
    by (intro exI [of _ t] exI [of _ "flatten t"]) (simp add: flatten_def)
qed

theorem projection_invariant_witness:
  "\<exists>st. reconstruct fs_two = Inr (None, st) \<and>
     1 < held (plain_replay_buffer (bufs st)) \<and>
     (\<exists>t u. storage (replay_buffer (bufs st)) 1 = Some t \<and>
            storage (plain_replay_buffer (bufs st)) 1 = Some u \<and>
            obs u = observation (obs t) \<and> next_obs u = observation (next_obs t))"
proof -
  from reconstruct_fs_two obtain st where
    r: "reconstruct fs_two = Inr (None, st)" and
    p: "plain_replay_buffer (bufs st) = foldl add (new_buffer 36090)
       [plain_at (recorded 2 [10, 20]) 0, plain_at (recorded 2 [10, 20]) 1,
        plain_at (recorded 2 [10, 20]) 0, plain_at (recorded 2 [10, 20]) 1]" by blast
  have h: "1 < held (plain_replay_buffer (bufs st))"
    unfolding p held_foldl_add by simp
  from projection_invariant [OF r h] r h show ?thesis by blast
qed

text \<open>
  C5. A recording that declares more entries than it holds should make the run raise
  \<open>IndexError\<close> and write nothing. The run does not do this when that recording is
  not the last one enumerated: with a first recording that declares ten entries and
  holds three, and a well-formed second one, the first file is never opened, nothing
  is raised and both files are written.
\<close>

theorem short_recording_not_last:
  "load fs_short_first (directory_path @ ''/a.pkl'') = Inr (recorded 10 [5, 6, 7]) \<and>
   seq_len (recorded 10 [5, 6, 7]) < nat (pos (recorded 10 [5, 6, 7])) \<and>
   raised (debug default_args fs_short_first) = None \<and>
   map fst (written (debug default_args fs_short_first)) = [save_path_her, save_path_plain]"
proof -
  have l: "load fs_short_first (last (pkl_paths [''a.pkl'', ''b.pkl''])) = Inr (recorded 1 [10])"
    by (simp add: fs_two_last(2) fs_short_first_facts)
  have v: "nat (pos (recorded 1 [10])) \<le> seq_len (recorded 1 [10])"
    by (simp add: seq_len_recorded pos_recorded)
  show ?thesis
    by (simp add: debug_valid [OF fs_short_first_facts(1) fs_two_last(1) l v]
        fs_short_first_facts(3) seq_len_recorded pos_recorded)
qed

text \<open>
  C6. Ring overwrite: when the loop over the recordings inserts more transitions than
  the capacity \<open>c\<close> of two freshly allocated buffers, each buffer holds exactly the
  last \<open>c\<close> inserted transitions, oldest first. With capacity 2 and one recording of
  three transitions these are the transitions at indices 1 and 2.
\<close>

theorem ring_overwrite:
  assumes "0 < c" and "load fs p = Inr ob" and "nat (pos ob) \<le> seq_len ob"
    and "c < length paths * nat (pos ob)"
  shows "\<exists>st'. file_loop fs (Some p) paths
                 (st\<lparr>bufs := \<lparr>replay_buffer = new_buffer c, plain_replay_buffer = new_buffer c\<rparr>\<rparr>)
               = (None, st') \<and>
           contents (replay_buffer (bufs st')) =
             map Some (drop (length paths * nat (pos ob) - c)
                         (concat (replicate (length paths) (her_transitions ob)))) \<and>
           contents (plain_replay_buffer (bufs st')) =
             map Some (drop (length paths * nat (pos ob) - c)
                         (concat (replicate (length paths) (plain_transitions ob)))) \<and>
           held (replay_buffer (bufs st')) = c \<and> held (plain_replay_buffer (bufs st')) = c"
proof -
  let ?st = "st\<lparr>bufs := \<lparr>replay_buffer = new_buffer c, plain_replay_buffer = new_buffer c\<rparr>\<rparr>"
  let ?hs = "concat (replicate (length paths) (her_transitions ob))"
  let ?ps = "concat (replicate (length paths) (plain_transitions ob))"
  from file_loop_valid [OF assms(2,3), of paths ?st] obtain st' where
    fl: "file_loop fs (Some p) paths ?st = (None, st')" and
    b: "bufs st' = foldl paired_add (bufs ?st) ?hs" by blast
  have h: "replay_buffer (bufs st') = foldl add (new_buffer c) ?hs"
    and pl: "plain_replay_buffer (bufs st') = foldl add (new_buffer c) ?ps"
    by (simp_all add: b foldl_paired_add map_flatten_copies)
  have lh: "length ?hs = length paths * nat (pos ob)"
    and lp: "length ?ps = length paths * nat (pos ob)"
    by (simp_all add: length_copies length_her_transitions length_plain_transitions)
  have "contents (replay_buffer (bufs st')) = map Some (drop (length paths * nat (pos ob) - c) ?hs)"
    unfolding h using foldl_add_contents [OF assms(1), of ?hs] by (simp only: lh)
  moreover have "contents (plain_replay_buffer (bufs st')) =
      map Some (drop (length paths * nat (pos ob) - c) ?ps)"
    unfolding pl using foldl_add_contents [OF assms(1), of ?ps] by (simp only: lp)
  moreover have "held (replay_buffer (bufs st')) = c" "held (plain_replay_buffer (bufs st')) = c"
    unfolding h pl held_foldl_add lh lp using assms(4) by simp_all
  ultimately show ?thesis using fl by blast
qed

theorem ring_overwrite_witness:
  "\<exists>st'. file_loop fs_three (Some (directory_path @ ''/r.pkl'')) [directory_path @ ''/r.pkl'']
           (init_state\<lparr>bufs := \<lparr>replay_buffer = new_buffer 2, plain_replay_buffer = new_buffer 2\<rparr>\<rparr>)
         = (None, st') \<and>
     contents (replay_buffer (bufs st')) =
       [Some (her_at (recorded 3 [5, 6, 7]) 1), Some (her_at (recorded 3 [5, 6, 7]) 2)] \<and>
     contents (plain_replay_buffer (bufs st')) =
       [Some (plain_at (recorded 3 [5, 6, 7]) 1), Some (plain_at (recorded 3 [5, 6, 7]) 2)] \<and>
     held (replay_buffer (bufs st')) = 2 \<and> held (plain_replay_buffer (bufs st')) = 2"
proof -
  have c: "0 < (2::nat)" by simp
  have v: "nat (pos (recorded 3 [5, 6, 7])) \<le> seq_len (recorded 3 [5, 6, 7])"
    by (simp add: seq_len_recorded pos_recorded)
  have t: "2 < length [directory_path @ ''/r.pkl''] * nat (pos (recorded 3 [5, 6, 7]))"
    by (simp add: pos_recorded)
  from ring_overwrite [OF c fs_three_facts v t, of init_state]
  show ?thesis by (simp add: transitions_three pos_recorded)
qed

text \<open>
  C7. When the recording directory does not exist, \<open>os.listdir\<close> raises
  \<open>FileNotFoundError\<close> (an \<open>OSError\<close>, which \<open>IOError\<close> names as well), nothing
  catches it and no file is written.
\<close>

theorem missing_directory:
  "listdir fs directory_path = None \<Longrightarrow>
   debug a fs = \<lparr>raised = Some FileNotFoundError, written = []\<rparr>"
  by (simp add: debug_def reconstruct_missing)

theorem missing_directory_witness:
  "listdir fs_missing directory_path = None \<and>
   debug default_args fs_missing = \<lparr>raised = Some FileNotFoundError, written = []\<rparr>"
proof -
  have n: "listdir fs_missing directory_path = None" by (simp add: fs_missing_def)
  from missing_directory [OF n] n show ?thesis by simp
qed

text \<open>
  C8. The capacity, the input directory and the two output paths are not supplied by
  the caller: two command lines that differ in every option, among them the save
  folder, give the same outcome, with both dumps at the literal paths and both
  capacities 36090.
\<close>

theorem caller_arguments_ignored:
  "save_folder other_args \<noteq> save_folder default_args \<and>
   n_timesteps other_args \<noteq> n_timesteps default_args \<and>
   folder other_args \<noteq> folder default_args \<and>
   debug other_args fs_two = debug default_args fs_two \<and>
   map fst (written (debug other_args fs_two)) = [save_path_her, save_path_plain] \<and>
   map (capacity_of \<circ> snd) (written (debug other_args fs_two)) = [36090, 36090]"
proof -
  have l: "load fs_two (last (pkl_paths [''a.pkl'', ''b.pkl''])) = Inr (recorded 2 [10, 20])"
    by (simp add: fs_two_facts)
  have d: "debug other_args fs_two = debug default_args fs_two" by (simp add: debug_def)
  show ?thesis unfolding d
    by (simp add: debug_valid [OF fs_two_facts(1) fs_two_last(1) l recorded_two_valid]
        capacity_of_def foldl_add_size new_buffer_fields other_args_def default_args_def)
qed

text \<open>
  C8, as the code has it: both buffers are built with the same capacity, 36090; the
  outcome does not depend on the command line; a run that ends normally writes to the
  two literal paths; and only the literal directory is ever listed.
\<close>

theorem fixed_configuration:
  "debug a fs = debug a' fs \<and>
   (\<forall>e st. reconstruct fs = Inr (e, st) \<longrightarrow>
      buffer_size (replay_buffer (bufs st)) = 36090 \<and>
      buffer_size (plain_replay_buffer (bufs st)) = 36090) \<and>
   (raised (debug a fs) = None \<longrightarrow>
      map fst (written (debug a fs)) = [save_path_her, save_path_plain] \<and>
      map (capacity_of \<circ> snd) (written (debug a fs)) = [36090, 36090]) \<and>
   (\<forall>fs'. listdir fs' directory_path = listdir fs directory_path \<and> files fs' = files fs \<longrightarrow>
      debug a fs' = debug a fs)"
proof (intro conjI allI impI)
  show "debug a fs = debug a' fs" by (simp add: debug_def)
next
  fix e st
  assume "reconstruct fs = Inr (e, st)"
  from reconstruct_form [OF this]
  show "buffer_size (replay_buffer (bufs st)) = 36090"
    and "buffer_size (plain_replay_buffer (bufs st)) = 36090"
    by (auto simp add: foldl_add_size new_buffer_fields)
next
  assume ok: "raised (debug a fs) = None"
  then obtain st where r: "reconstruct fs = Inr (None, st)"
    by (auto simp add: debug_def split: sum.splits option.splits)
  then show "map fst (written (debug a fs)) = [save_path_her, save_path_plain]"
    by (simp add: debug_def)
  from reconstruct_form [OF r] r
  show "map (capacity_of \<circ> snd) (written (debug a fs)) = [36090, 36090]"
    by (auto simp add: debug_def capacity_of_def foldl_add_size new_buffer_fields)
next
  fix fs' :: "('a, 'b, 'c) filesystem"
  assume a: "listdir fs' directory_path = listdir fs directory_path \<and> files fs' = files fs"
  have "reconstruct fs' = reconstruct fs"
  proof (cases "listdir fs directory_path")
    case None
    with a show ?thesis by (simp add: reconstruct_missing)
  next
    case (Some names)
    with a have "listdir fs' directory_path = Some names" by simp
    from debug_cong [OF Some this] a show ?thesis by simp
  qed
  then show "debug a fs' = debug a fs" by (simp add: debug_def)
qed

theorem fixed_configuration_witness:
  "debug other_args fs_two = debug default_args fs_two \<and>
   raised (debug other_args fs_two) = None \<and>
   map fst (written (debug other_args fs_two)) = [save_path_her, save_path_plain] \<and>
   map (capacity_of \<circ> snd) (written (debug other_args fs_two)) = [36090, 36090] \<and>
   (\<exists>st. reconstruct fs_two = Inr (None, st) \<and>
      buffer_size (replay_buffer (bufs st)) = 36090 \<and>
      buffer_size (plain_replay_buffer (bufs st)) = 36090) \<and>
   listdir fs_two_elsewhere ''/tmp'' \<noteq> listdir fs_two ''/tmp'' \<and>
   debug other_args fs_two_elsewhere = debug other_args fs_two"
proof -
  note t = fixed_configuration [of other_args fs_two default_args]
  from reconstruct_fs_two obtain st where r: "reconstruct fs_two = Inr (None, st)" by blast
  then have ok: "raised (debug other_args fs_two) = None" by (simp add: debug_def)
  from t r have "buffer_size (replay_buffer (bufs st)) = 36090 \<and>
      buffer_size (plain_replay_buffer (bufs st)) = 36090" by blast
  moreover from t fs_two_elsewhere_facts(1,2)
  have "debug other_args fs_two_elsewhere = debug other_args fs_two" by blast
  ultimately show ?thesis using t ok r fs_two_elsewhere_facts(3) by blast
qed

text \<open>
  C9. When the directory exists and no name in it ends in \<open>.pkl\<close>, the run raises
  nothing and writes both files, each holding a freshly allocated buffer with no
  inserted transition.
\<close>

theorem no_recordings:
  assumes "listdir fs directory_path = Some names"
    and "filter (\<lambda>f. endswith f ''.pkl'') names = []"
  shows "debug a fs =
           \<lparr>raised = None,
            written = [(save_path_her, HerDump (new_buffer 36090)),
                       (save_path_plain, PlainDump (new_buffer 36090))]\<rparr> \<and>
         map (inserted \<circ> snd) (written (debug a fs)) = [0, 0]"
proof -
  from assms(2) have "pkl_paths names = []" by (simp add: pkl_paths_def)
  then have "reconstruct fs = Inr (None, init_state)"
    by (simp add: reconstruct_listing [OF assms(1)])
  then show ?thesis
    by (simp add: debug_def init_bufs inserted_def new_buffer_fields)
qed

theorem no_recordings_witness:
  "listdir fs_notes directory_path = Some [''notes.txt''] \<and>
   filter (\<lambda>f. endswith f ''.pkl'') [''notes.txt''] = [] \<and>
   debug default_args fs_notes =
     \<lparr>raised = None,
      written = [(save_path_her, HerDump (new_buffer 36090)),
                 (save_path_plain, PlainDump (new_buffer 36090))]\<rparr>"
proof -
  have l: "listdir fs_notes directory_path = Some [''notes.txt'']"
    by (simp add: fs_notes_def listdir_dir_with)
  have f: "filter (\<lambda>f. endswith f ''.pkl'') [''notes.txt''] = []"
    by (simp add: endswith_def)
  from no_recordings [OF l f, of default_args] l f show ?thesis by simp
qed

text \<open>
  C10. After each paired insertion both buffers have received the same number of
  \<open>add\<close> calls: the two counts agree along the whole trace of a run, and the trace
  ends in the buffers the run ends with, whether it returns or raises.
\<close>

theorem insert_calls_balanced:
  "map (\<lambda>b. total_inserted (replay_buffer b)) (reconstruct_states fs) =
   map (\<lambda>b. total_inserted (plain_replay_buffer b)) (reconstruct_states fs) \<and>
   (\<forall>e st. reconstruct fs = Inr (e, st) \<longrightarrow>
      reconstruct_states fs \<noteq> [] \<and> bufs st = last (reconstruct_states fs))"
proof (intro conjI allI impI)
  show "map (\<lambda>b. total_inserted (replay_buffer b)) (reconstruct_states fs) =
        map (\<lambda>b. total_inserted (plain_replay_buffer b)) (reconstruct_states fs)"
    using reconstruct_states_balanced [of _ fs] by (simp add: balanced_def)
next
  fix e st
  assume r: "reconstruct fs = Inr (e, st)"
  from reconstruct_states_last [OF r]
  show "reconstruct_states fs \<noteq> []" and "bufs st = last (reconstruct_states fs)"
    by simp_all
qed

theorem insert_calls_balanced_witness:
  "length (reconstruct_states fs_two) = 5 \<and>
   map (\<lambda>b. total_inserted (replay_buffer b)) (reconstruct_states fs_two) =
   map (\<lambda>b. total_inserted (plain_replay_buffer b)) (reconstruct_states fs_two) \<and>
   (\<exists>st. reconstruct fs_two = Inr (None, st) \<and> bufs st = last (reconstruct_states fs_two) \<and>
      total_inserted (replay_buffer (bufs st)) = 4 \<and>
      total_inserted (plain_replay_buffer (bufs st)) = 4)"
proof -
  note t = insert_calls_balanced [of fs_two]
  have l: "load fs_two (directory_path @ ''/b.pkl'') = Inr (recorded 2 [10, 20])"
    by (simp add: fs_two_facts)
  have "length (file_states fs_two (Some (directory_path @ ''/b.pkl''))
           [directory_path @ ''/a.pkl'', directory_path @ ''/b.pkl''] (bufs init_state)) = 4"
    using file_states_valid [OF l recorded_two_valid,
        of "[directory_path @ ''/a.pkl'', directory_path @ ''/b.pkl'']" "bufs init_state"]
    by (simp add: pos_recorded del: file_states.simps)
  then have n: "length (reconstruct_states fs_two) = 5"
    by (simp add: reconstruct_states_listing [OF fs_two_facts(1)] fs_two_facts(2)
        del: file_states.simps)
  from reconstruct_fs_two obtain st where r: "reconstruct fs_two = Inr (None, st)"
    and h: "total_inserted (replay_buffer (bufs st)) = 4"
    and p: "total_inserted (plain_replay_buffer (bufs st)) = 4"
    by (auto simp add: add_fields new_buffer_fields)
  from t r have "bufs st = last (reconstruct_states fs_two)" by blast
  with t n r h p show ?thesis by blast
qed

end
